theory Spec2Isabelle
  imports Main "HOL-Library.Word"
begin

section \<open>Common types\<close>

text \<open>
  Objects that the source reaches through pointers or references (turns, blocking
  conditions, graph nodes, observers) are named by an address.
\<close>

type_synonym addr = nat

text \<open>
  \<open>TurnIdT\<close> and \<open>TurnFlagsT\<close> are declared in \<open>react/common/Types.h\<close>, which is not
  among the sources at hand. \<open>EventStreamNode\<close> stores \<open>turn.Id()\<close> in its
  \<open>uint curTurnId_\<close> field and compares the two directly, so both are taken as
  32-bit unsigned machine integers.
\<close>

type_synonym TurnIdT = "32 word"
type_synonym TurnFlagsT = "32 word"

text \<open>
  Modelled from the spec: the macro \<open>REACT_ASSERT(condition, message)\<close> of
  \<open>react/Defs.h\<close>, which is not among the sources. A condition that does not hold
  is a fatal failure carrying the message; it is a value of the error type, and a
  function that can fail an assertion returns a sum.
\<close>

datatype error = AssertionFailed string

definition REACT_ASSERT :: "bool \<Rightarrow> string \<Rightarrow> error + unit" where
  "REACT_ASSERT condition msg = (if condition then Inr () else Inl (AssertionFailed msg))"

text \<open>
  The engine is a template parameter whose callbacks (\<open>IReactiveEngine\<close>) receive the
  node and the turn. A call of a callback, and a call of \<open>op_.Detach\<close> of the absent
  \<open>ReactiveOpBase\<close>, is recorded as an element of the list of effects that the
  calling function returns, in call order.
\<close>

datatype effect =
    OnNodeCreate addr
  | OnNodeDestroy addr
  | OnTurnInputChange addr TurnIdT
  | OnNodePulse addr TurnIdT
  | OnNodeIdlePulse addr TurnIdT
  | OpDetach addr

section \<open>TurnBase\<close>

text \<open>
  Member names are those of the source without the trailing underscore (\<open>id_\<close>, which
  would clash with the identity function, is \<open>turnId\<close>). \<open>detachedObserversPtr_\<close>
  is a \<open>unique_ptr\<close> to a vector of observer pointers: \<open>None\<close> is the null pointer.
  The \<open>continuation_\<close> member has a type that is not among the sources and no
  function here touches it; it is left out.
\<close>

record TurnBase =
  turnId :: TurnIdT
  detachedObserversPtr :: "addr list option"

definition TurnBase_new :: "TurnIdT \<Rightarrow> TurnFlagsT \<Rightarrow> TurnBase" where
  "TurnBase_new i flags = \<lparr> turnId = i, detachedObserversPtr = None \<rparr>"

definition Id :: "TurnBase \<Rightarrow> TurnIdT" where
  "Id turn = turnId turn"

text \<open>
  \<open>QueueForDetach\<close> is called from the ticks of observers, which a parallel engine runs
  on several threads. Only \<open>push_back\<close> on the \<open>tbb::concurrent_vector\<close> is atomic; the
  test of the pointer against null and the assignment of a new vector are separate,
  unsynchronised accesses. A running call is therefore its argument and the place it
  has reached, and \<open>QueueForDetach_step\<close> is one access to the turn: the null test, the
  assignment of a new empty vector (which destroys the vector that the pointer held),
  or \<open>push_back\<close> on the vector that the pointer holds at that moment. The pointer is
  never reset to null, so \<open>push_back\<close> finds a vector.
\<close>

datatype queue_pc = AtNullTest | AtAssign | AtPushBack | Returned

type_synonym queue_call = "addr \<times> queue_pc"

fun QueueForDetach_step :: "queue_call \<Rightarrow> TurnBase \<Rightarrow> queue_call \<times> TurnBase" where
  "QueueForDetach_step (obs, AtNullTest) turn =
     ((obs, if detachedObserversPtr turn = None then AtAssign else AtPushBack), turn)"
| "QueueForDetach_step (obs, AtAssign) turn =
     ((obs, AtPushBack), turn\<lparr> detachedObserversPtr := Some [] \<rparr>)"
| "QueueForDetach_step (obs, AtPushBack) turn =
     ((obs, Returned),
      turn\<lparr> detachedObserversPtr := map_option (\<lambda>v. v @ [obs]) (detachedObserversPtr turn) \<rparr>)"
| "QueueForDetach_step (obs, Returned) turn = ((obs, Returned), turn)"

text \<open>
  A call that no other call overlaps: its accesses one after the other. After the null
  test at most two accesses remain.
\<close>

definition QueueForDetach :: "addr \<Rightarrow> TurnBase \<Rightarrow> TurnBase" where
  "QueueForDetach obs turn =
     (case QueueForDetach_step (obs, AtNullTest) turn of (c1, turn1) \<Rightarrow>
        (case QueueForDetach_step c1 turn1 of (c2, turn2) \<Rightarrow>
           snd (QueueForDetach_step c2 turn2)))"

text \<open>
  Calls that overlap: the running calls by thread, and a schedule that names, access
  by access, the thread that makes the next one. A thread that the schedule names and
  that does not exist, or has returned, makes no access.
\<close>

fun run_schedule :: "nat list \<Rightarrow> queue_call list \<times> TurnBase \<Rightarrow> queue_call list \<times> TurnBase" where
  "run_schedule [] st = st"
| "run_schedule (i # sched) (calls, turn) =
     (if i < length calls
      then (case QueueForDetach_step (calls ! i) turn of
              (c, turn1) \<Rightarrow> run_schedule sched (calls[i := c], turn1))
      else run_schedule sched (calls, turn))"

text \<open>
  The registry is a template parameter of \<open>detachObservers\<close>; the model takes its
  \<open>Unregister\<close> member as a function on the registry state.
\<close>

definition detachObservers :: "(addr \<Rightarrow> 'r \<Rightarrow> 'r) \<Rightarrow> TurnBase \<Rightarrow> 'r \<Rightarrow> 'r" where
  "detachObservers Unregister turn registry =
     (case detachedObserversPtr turn of
        None \<Rightarrow> registry
      | Some v \<Rightarrow> fold Unregister v registry)"

text \<open>
  Modelled from the spec: the observer registry, whose class is not among the sources.
  It is a plain set keyed by the identity of the observer, and \<open>unregister\<close> removes
  the observer and is idempotent.
\<close>

definition registry_Unregister :: "addr \<Rightarrow> addr set \<Rightarrow> addr set" where
  "registry_Unregister obs registry = registry - {obs}"

section \<open>EventStreamNode\<close>

record 'e EventStreamNode =
  events :: "'e list"
  curTurnId :: TurnIdT

definition INT_MAX :: "32 word" where
  "INT_MAX = 2147483647"

definition EventStreamNode_new :: "'e EventStreamNode" where
  "EventStreamNode_new = \<lparr> events = [], curTurnId = INT_MAX \<rparr>"

definition SetCurrentTurn ::
  "TurnBase \<Rightarrow> bool \<Rightarrow> bool \<Rightarrow> ('e, 'm) EventStreamNode_scheme \<Rightarrow> ('e, 'm) EventStreamNode_scheme"
where
  "SetCurrentTurn turn forceUpdate noClear n =
     (if curTurnId n \<noteq> Id turn \<or> forceUpdate
      then (let n1 = n\<lparr> curTurnId := Id turn \<rparr>
            in if \<not> noClear then n1\<lparr> events := [] \<rparr> else n1)
      else n)"

definition ClearEvents ::
  "TurnBase \<Rightarrow> ('e, 'm) EventStreamNode_scheme \<Rightarrow> ('e, 'm) EventStreamNode_scheme"
where
  "ClearEvents turn n = n\<lparr> curTurnId := Id turn, events := [] \<rparr>"

section \<open>EventSourceNode\<close>

record 'e EventSourceNode = "'e EventStreamNode" +
  changedFlag :: bool

definition EventSourceNode_new :: "'e EventSourceNode" where
  "EventSourceNode_new = \<lparr> events = [], curTurnId = INT_MAX, changedFlag = False \<rparr>"

definition EventSourceNode_Tick :: "addr \<Rightarrow> TurnBase \<Rightarrow> 'e EventSourceNode \<Rightarrow> error + 'e EventSourceNode" where
  "EventSourceNode_Tick this turn n =
     (case REACT_ASSERT False (''Don't tick the EventSourceNode'' @ [CHR 0x0A]) of
        Inl e \<Rightarrow> Inl e
      | Inr _ \<Rightarrow> Inr n)"

definition AddInput :: "'e \<Rightarrow> 'e EventSourceNode \<Rightarrow> 'e EventSourceNode" where
  "AddInput v n =
     (let n1 = (if changedFlag n then n\<lparr> changedFlag := False, events := [] \<rparr> else n)
      in n1\<lparr> events := events n1 @ [v] \<rparr>)"

definition ApplyInput ::
  "addr \<Rightarrow> TurnBase \<Rightarrow> 'e EventSourceNode \<Rightarrow> bool \<times> 'e EventSourceNode \<times> effect list"
where
  "ApplyInput this turn n =
     (if length (events n) > 0 \<and> \<not> changedFlag n
      then (True, (SetCurrentTurn turn True True n)\<lparr> changedFlag := True \<rparr>,
            [OnTurnInputChange this (Id turn)])
      else (False, n, []))"

text \<open>
  The calls that the host makes on an input node, and a run of them in order.
  \<open>staged_unpublished\<close> says, from the calls alone and not from the fields of the node,
  whether after them a value has been staged by \<open>AddInput\<close> and not published since:
  a call of \<open>AddInput\<close> stages, a call of \<open>ApplyInput\<close> leaves nothing to publish.
  \<open>has_staged_input\<close> is the condition that \<open>ApplyInput\<close> tests.
\<close>

datatype 'e input_call = CallAddInput 'e | CallApplyInput TurnBase

fun do_input_call :: "addr \<Rightarrow> 'e input_call \<Rightarrow> 'e EventSourceNode \<Rightarrow> 'e EventSourceNode" where
  "do_input_call this (CallAddInput v) n = AddInput v n"
| "do_input_call this (CallApplyInput turn) n = fst (snd (ApplyInput this turn n))"

fun staged_unpublished :: "bool \<Rightarrow> 'e input_call list \<Rightarrow> bool" where
  "staged_unpublished p [] = p"
| "staged_unpublished p (CallAddInput v # cs) = staged_unpublished True cs"
| "staged_unpublished p (CallApplyInput turn # cs) = staged_unpublished False cs"

definition has_staged_input :: "'e EventSourceNode \<Rightarrow> bool" where
  "has_staged_input n = (events n \<noteq> [] \<and> \<not> changedFlag n)"

section \<open>Event operations and EventOpNode\<close>

text \<open>
  A dependency of an operation is either a node (held through \<open>NodeHolderT\<close>) or a
  nested operation. The C++ templates let every operation have its own event type; the
  model uses one event type \<open>'e\<close> throughout, so a transform function maps \<open>'e\<close> to
  \<open>'e\<close>.
\<close>

datatype 'e dep = NodeHolderT addr | OpDep "'e op"
and 'e op =
    EventMergeOp "'e dep list"
  | EventFilterOp "'e \<Rightarrow> bool" "'e dep"
  | EventTransformOp "'e \<Rightarrow> 'e" "'e dep"

text \<open>
  The nodes live in a store that maps the address of a node to its \<open>EventStreamNode\<close>
  part, the only part that \<open>Collect\<close> reads and writes. A collector is called with an
  event and acts on the store.
\<close>

type_synonym 'e node_store = "addr \<Rightarrow> 'e EventStreamNode"
type_synonym 'e collector = "'e \<Rightarrow> 'e node_store \<Rightarrow> 'e node_store"

definition EventCollector :: "addr \<Rightarrow> 'e collector" where
  "EventCollector this e h = h(this := (h this)\<lparr> events := events (h this) @ [e] \<rparr>)"

definition FilteredEventCollector :: "('e \<Rightarrow> bool) \<Rightarrow> 'e collector \<Rightarrow> 'e collector" where
  "FilteredEventCollector MyFilter MyFiltered e h = (if MyFilter e then MyFiltered e h else h)"

definition TransformEventCollector :: "('e \<Rightarrow> 'e) \<Rightarrow> 'e collector \<Rightarrow> 'e collector" where
  "TransformEventCollector MyFunc MyTarget e h = MyTarget (MyFunc e) h"

text \<open>
  \<open>collect_node\<close> is the body shared by \<open>CollectFunctor::collect\<close> and \<open>collectImpl\<close>
  on a node: \<open>SetCurrentTurn\<close> on the dependency, then the collector on each of its
  events in order.
\<close>

definition collect_node :: "TurnBase \<Rightarrow> 'e collector \<Rightarrow> addr \<Rightarrow> 'e node_store \<Rightarrow> 'e node_store" where
  "collect_node turn collector depPtr h =
     (let h1 = h(depPtr := SetCurrentTurn turn False False (h depPtr))
      in fold collector (events (h1 depPtr)) h1)"

primrec collect_dep :: "'e dep \<Rightarrow> TurnBase \<Rightarrow> 'e collector \<Rightarrow> 'e node_store \<Rightarrow> 'e node_store"
  and Collect :: "'e op \<Rightarrow> TurnBase \<Rightarrow> 'e collector \<Rightarrow> 'e node_store \<Rightarrow> 'e node_store"
where
  "collect_dep (NodeHolderT depPtr) = (\<lambda>turn collector. collect_node turn collector depPtr)"
| "collect_dep (OpDep opr) = Collect opr"
| "Collect (EventMergeOp deps) =
     (\<lambda>turn collector. fold (\<lambda>c. c turn collector) (map collect_dep deps))"
| "Collect (EventFilterOp flt dep) =
     (\<lambda>turn collector. collect_dep dep turn (FilteredEventCollector flt collector))"
| "Collect (EventTransformOp func dep) =
     (\<lambda>turn collector. collect_dep dep turn (TransformEventCollector func collector))"

text \<open>
  \<open>Tick\<close> of an \<open>EventOpNode\<close> at address \<open>this\<close> with the fused operation \<open>opr\<close>. The
  logging calls have no effect on the node or the engine and are left out.
\<close>

definition EventOpNode_Tick ::
  "addr \<Rightarrow> 'e op \<Rightarrow> TurnBase \<Rightarrow> 'e node_store \<Rightarrow> 'e node_store \<times> effect list"
where
  "EventOpNode_Tick this opr turn h =
     (let h1 = h(this := SetCurrentTurn turn True False (h this));
          h2 = Collect opr turn (EventCollector this) h1
      in if events (h2 this) \<noteq> []
         then (h2, [OnNodePulse this (Id turn)])
         else (h2, [OnNodeIdlePulse this (Id turn)]))"

text \<open>
  The event list that a tick is to collect, stated on the store as it is before the
  tick and without the updates that \<open>Collect\<close> makes: the events that a dependency node
  holds for the turn (none when the node's recorded turn is another one), merged in
  the order of the dependencies, filtered and transformed as the operation says.
  \<open>dep_nodes\<close> and \<open>op_nodes\<close> list the nodes an operation depends on.
\<close>

definition current_events :: "TurnBase \<Rightarrow> 'e EventStreamNode \<Rightarrow> 'e list" where
  "current_events turn n = (if curTurnId n = Id turn then events n else [])"

primrec dep_events :: "'e dep \<Rightarrow> TurnBase \<Rightarrow> 'e node_store \<Rightarrow> 'e list"
  and op_events :: "'e op \<Rightarrow> TurnBase \<Rightarrow> 'e node_store \<Rightarrow> 'e list"
where
  "dep_events (NodeHolderT depPtr) = (\<lambda>turn h. current_events turn (h depPtr))"
| "dep_events (OpDep opr) = op_events opr"
| "op_events (EventMergeOp deps) = (\<lambda>turn h. concat (map (\<lambda>c. c turn h) (map dep_events deps)))"
| "op_events (EventFilterOp flt dep) = (\<lambda>turn h. filter flt (dep_events dep turn h))"
| "op_events (EventTransformOp func dep) = (\<lambda>turn h. map func (dep_events dep turn h))"

primrec dep_nodes :: "'e dep \<Rightarrow> addr list"
  and op_nodes :: "'e op \<Rightarrow> addr list"
where
  "dep_nodes (NodeHolderT depPtr) = [depPtr]"
| "dep_nodes (OpDep opr) = op_nodes opr"
| "op_nodes (EventMergeOp deps) = concat (map dep_nodes deps)"
| "op_nodes (EventFilterOp flt dep) = dep_nodes dep"
| "op_nodes (EventTransformOp func dep) = dep_nodes dep"

text \<open>Appending a list of events to the event list of the node at \<open>this\<close>.\<close>

definition push_events :: "addr \<Rightarrow> 'e list \<Rightarrow> 'e node_store \<Rightarrow> 'e node_store" where
  "push_events this xs h = h(this := (h this)\<lparr> events := events (h this) @ xs \<rparr>)"

text \<open>
  An example: node 0 merges node 1 with the even events of node 2; nodes 1 and 2 hold
  events of turn 7.
\<close>

definition store_example :: "nat node_store" where
  "store_example = (\<lambda>_. EventStreamNode_new)
     (1 := \<lparr> events = [1, 2], curTurnId = 7 \<rparr>,
      2 := \<lparr> events = [3, 4], curTurnId = 7 \<rparr>)"

definition op_example :: "nat op" where
  "op_example = EventMergeOp [NodeHolderT 1, OpDep (EventFilterOp even (NodeHolderT 2))]"

text \<open>
  The members of \<open>EventOpNode\<close> that \<open>StealOp\<close> and the destructor use. \<open>StealOp\<close>
  returns the operation it moves out of the node; the moved-from member is left as it
  was, no function reads it afterwards.
\<close>

record ('e, 'o) EventOpNode = "'e EventStreamNode" +
  op :: 'o
  wasOpStolen :: bool




section \<open>ExclusiveTurnManager\<close>

text \<open>
  Modelled from the spec: the class \<open>BlockingCondition\<close> of
  \<open>react/common/Concurrency.h\<close>, which is not among the sources. It is the wake-up
  condition on which a thread blocks until woken: a flag that \<open>Block\<close> sets and
  \<open>Unblock\<close> clears, \<open>WaitForUnblock\<close> returns once the flag is clear (\<open>None\<close>: the
  thread is still waiting), and \<open>RunIfBlocked\<close> runs the given action, atomically, only
  if the flag is set and returns whether it did. A new condition is not blocked.
\<close>

record BlockingCondition =
  blocked :: bool

definition BlockingCondition_new :: BlockingCondition where
  "BlockingCondition_new = \<lparr> blocked = False \<rparr>"

definition Block :: "BlockingCondition \<Rightarrow> BlockingCondition" where
  "Block c = c\<lparr> blocked := True \<rparr>"

definition Unblock :: "BlockingCondition \<Rightarrow> BlockingCondition" where
  "Unblock c = c\<lparr> blocked := False \<rparr>"


definition RunIfBlocked :: "BlockingCondition \<Rightarrow> ('s \<Rightarrow> 's) \<Rightarrow> 's \<Rightarrow> bool \<times> 's" where
  "RunIfBlocked c func s = (if blocked c then (True, func s) else (False, s))"

text \<open>
  An input closure (\<open>std::function<void()>\<close>) acts on the state \<open>'u\<close> of the host
  program. \<open>successor\<close> and the second components of \<open>merged\<close> are pointers.
\<close>

record 'u ExclusiveTurn =
  isMergeable :: bool
  successor :: "addr option"
  merged :: "(('u \<Rightarrow> 'u) \<times> addr) list"
  blockCondition :: BlockingCondition

text \<open>
  The constant \<open>enable_input_merging\<close> is declared outside the sources at hand; the
  constructor takes it as its first argument.
\<close>

definition ExclusiveTurn_new :: "TurnFlagsT \<Rightarrow> TurnFlagsT \<Rightarrow> 'u ExclusiveTurn" where
  "ExclusiveTurn_new enable_input_merging flags =
     \<lparr> isMergeable = (and flags enable_input_merging \<noteq> 0),
       successor = None,
       merged = [],
       blockCondition = BlockingCondition_new \<rparr>"

text \<open>
  The state of the manager and of the objects it points to: the turns by address, the
  callers' blocking conditions by address (each is a local variable of a running
  \<open>TryMerge\<close>), and the \<open>tail_\<close> pointer. Each function below that takes the manager's
  mutex is one atomic step on this state.
\<close>

record 'u ExclusiveTurnManager =
  turns :: "addr \<Rightarrow> 'u ExclusiveTurn"
  conds :: "addr \<Rightarrow> BlockingCondition"
  tail :: "addr option"

datatype woken = CallerWoken addr | TurnWoken addr

definition Append :: "addr \<Rightarrow> addr \<Rightarrow> 'u ExclusiveTurnManager \<Rightarrow> 'u ExclusiveTurnManager" where
  "Append this tr s =
     (let s1 = s\<lparr> turns := (turns s)(this := (turns s this)\<lparr> successor := Some tr \<rparr>) \<rparr>
      in s1\<lparr> turns := (turns s1)
                (tr := (turns s1 tr)\<lparr> blockCondition := Block (blockCondition (turns s1 tr)) \<rparr>) \<rparr>)"




fun unblock_merged ::
  "(('u \<Rightarrow> 'u) \<times> addr) list \<Rightarrow> 'u ExclusiveTurnManager \<times> woken list
     \<Rightarrow> 'u ExclusiveTurnManager \<times> woken list"
where
  "unblock_merged [] sw = sw"
| "unblock_merged (e # es) (s, w) =
     unblock_merged es
       (s\<lparr> conds := (conds s)(snd e := Unblock (conds s (snd e))) \<rparr>, w @ [CallerWoken (snd e)])"

definition UnblockSuccessors ::
  "addr \<Rightarrow> 'u ExclusiveTurnManager \<Rightarrow> 'u ExclusiveTurnManager \<times> woken list"
where
  "UnblockSuccessors this s =
     (case unblock_merged (merged (turns s this)) (s, []) of (s1, w) \<Rightarrow>
        (case successor (turns s1 this) of
           None \<Rightarrow> (s1, w)
         | Some n \<Rightarrow>
             (s1\<lparr> turns := (turns s1)
                    (n := (turns s1 n)\<lparr> blockCondition := Unblock (blockCondition (turns s1 n)) \<rparr>) \<rparr>,
              w @ [TurnWoken n])))"

definition ExclusiveTurn_TryMerge ::
  "addr \<Rightarrow> ('u \<Rightarrow> 'u) \<Rightarrow> addr \<Rightarrow> 'u ExclusiveTurnManager \<Rightarrow> bool \<times> 'u ExclusiveTurnManager"
where
  "ExclusiveTurn_TryMerge this inputFunc caller s =
     (if \<not> isMergeable (turns s this) then (False, s)
      else RunIfBlocked (blockCondition (turns s this))
             (\<lambda>s. let s1 = s\<lparr> conds := (conds s)(caller := Block (conds s caller)) \<rparr>
                  in s1\<lparr> turns := (turns s1)
                            (this := (turns s1 this)
                               \<lparr> merged := merged (turns s1 this) @ [(inputFunc, caller)] \<rparr>) \<rparr>)
             s)"

text \<open>
  \<open>TryMerge\<close> up to the release of the mutex: the local condition \<open>caller\<close> is
  constructed at the address given, and the result is the value of \<open>merged\<close>.
  \<open>TryMerge_return\<close> is the rest of the function, run by the calling thread in a
  later state: \<open>None\<close> while the thread waits, otherwise the value returned.
\<close>

definition TryMerge ::
  "('u \<Rightarrow> 'u) \<Rightarrow> addr \<Rightarrow> 'u ExclusiveTurnManager \<Rightarrow> bool \<times> 'u ExclusiveTurnManager"
where
  "TryMerge inputFunc caller s =
     (let s0 = s\<lparr> conds := (conds s)(caller := BlockingCondition_new) \<rparr>
      in case tail s0 of
           None \<Rightarrow> (False, s0)
         | Some t \<Rightarrow> ExclusiveTurn_TryMerge t inputFunc caller s0)"


text \<open>
  \<open>StartTurn\<close> up to the release of the mutex; the call \<open>turn.WaitForUnblock()\<close> that
  follows is \<open>ExclusiveTurn_WaitForUnblock\<close> in a later state.
\<close>

definition StartTurn :: "addr \<Rightarrow> 'u ExclusiveTurnManager \<Rightarrow> 'u ExclusiveTurnManager" where
  "StartTurn turn s =
     (let s1 = (case tail s of None \<Rightarrow> s | Some t \<Rightarrow> Append t turn s)
      in s1\<lparr> tail := Some turn \<rparr>)"

definition EndTurn ::
  "addr \<Rightarrow> 'u ExclusiveTurnManager \<Rightarrow> 'u ExclusiveTurnManager \<times> woken list"
where
  "EndTurn turn s =
     (case UnblockSuccessors turn s of (s1, w) \<Rightarrow>
        (if tail s1 = Some turn then s1\<lparr> tail := None \<rparr> else s1, w))"


text \<open>A sequence of \<open>TryMerge\<close> calls, each with its closure and its caller's condition.\<close>

fun merge_all ::
  "(('u \<Rightarrow> 'u) \<times> addr) list \<Rightarrow> 'u ExclusiveTurnManager \<Rightarrow> bool list \<times> 'u ExclusiveTurnManager"
where
  "merge_all [] s = ([], s)"
| "merge_all (fc # fcs) s =
     (case TryMerge (fst fc) (snd fc) s of (b, s1) \<Rightarrow>
        (case merge_all fcs s1 of (bs, s2) \<Rightarrow> (b # bs, s2)))"

text \<open>
  Examples: a manager with no turn, on a host state that is a number; turn 1 started and
  running with turn 2 started behind it; two input closures with their callers'
  conditions at addresses 10 and 11; and turn 3 started behind turn 2 after both
  closures were merged into turn 2.
\<close>

definition manager_init :: "nat ExclusiveTurnManager" where
  "manager_init = \<lparr> turns = (\<lambda>_. ExclusiveTurn_new 1 1),
                     conds = (\<lambda>_. BlockingCondition_new),
                     tail = None \<rparr>"

definition two_turns :: "nat ExclusiveTurnManager" where
  "two_turns = StartTurn 2 (StartTurn 1 manager_init)"

definition two_inputs :: "((nat \<Rightarrow> nat) \<times> addr) list" where
  "two_inputs = [((\<lambda>u. u + 1), 10), ((\<lambda>u. u * 2), 11)]"

definition three_turns :: "nat ExclusiveTurnManager" where
  "three_turns = StartTurn 3 (snd (merge_all two_inputs two_turns))"

section \<open>Properties of TurnBase\<close>

lemma QueueForDetach_unfold:
  "QueueForDetach obs turn =
     turn\<lparr> detachedObserversPtr :=
             Some ((case detachedObserversPtr turn of None \<Rightarrow> [] | Some v \<Rightarrow> v) @ [obs]) \<rparr>"
  by (simp add: QueueForDetach_def split: option.splits)

lemma run_schedule_one_call:
  "run_schedule [0, 0, 0] ([(obs, AtNullTest)], turn) = ([(obs, Returned)], QueueForDetach obs turn)"
  by (simp add: QueueForDetach_def split: option.splits)

lemma detached_fold_QueueForDetach:
  "detachedObserversPtr (fold QueueForDetach obss t)
     = (if obss = [] then detachedObserversPtr t
        else Some ((case detachedObserversPtr t of None \<Rightarrow> [] | Some v \<Rightarrow> v) @ obss))"
  by (induction obss arbitrary: t) (auto simp: QueueForDetach_unfold split: option.splits)

lemma fold_registry_Unregister: "fold registry_Unregister v registry = registry - set v"
  by (induction v arbitrary: registry) (auto simp: registry_Unregister_def)

text \<open>
  When the calls of \<open>QueueForDetach\<close> in a turn do not overlap, finalization calls
  \<open>Unregister\<close> on the queued observers in queue order, and on the registry that is a
  set it removes exactly the queued observers: each of them is unregistered, a second
  entry of the same observer changes nothing, and no other observer is touched.
\<close>

lemma detachObservers_sequential:
  "detachObservers Unregister (fold QueueForDetach obss (TurnBase_new i flags)) registry
     = fold Unregister obss registry"
  by (simp add: detachObservers_def detached_fold_QueueForDetach TurnBase_new_def)

lemma detachObservers_sequential_registry:
  "detachObservers registry_Unregister (fold QueueForDetach obss (TurnBase_new i flags)) registry
     = registry - set obss"
  by (simp add: detachObservers_sequential fold_registry_Unregister)

text \<open>
  C8. Every observer queued on a turn is to be unregistered by finalization. The code
  breaks this when two calls of \<open>QueueForDetach\<close> overlap on a turn whose pointer is
  still null. Observers 7 and 8 are queued from two threads; both threads make the
  null test before either assigns. Thread 0 assigns a vector and pushes 7, then thread
  1 assigns its own new vector, which destroys the first, and pushes 8. Both calls
  have returned, the queue holds 8 alone, and finalization on the registry
  \<open>{7, 8, 9}\<close> leaves observer 7 registered although it was queued.
\<close>

theorem QueueForDetach_overlap_loses_entry:
  "run_schedule [0, 1, 0, 0, 1, 1] ([(7, AtNullTest), (8, AtNullTest)], TurnBase_new 1 0)
     = ([(7, Returned), (8, Returned)], \<lparr> turnId = 1, detachedObserversPtr = Some [8] \<rparr>)
   \<and> detachObservers registry_Unregister
        (snd (run_schedule [0, 1, 0, 0, 1, 1]
                ([(7, AtNullTest), (8, AtNullTest)], TurnBase_new 1 0)))
        {7, 8, 9}
       = {7, 9}"
proof -
  have r: "run_schedule [0, 1, 0, 0, 1, 1] ([(7, AtNullTest), (8, AtNullTest)], TurnBase_new 1 0)
     = ([(7, Returned), (8, Returned)], \<lparr> turnId = 1, detachedObserversPtr = Some [8] \<rparr>)"
    by (simp add: TurnBase_new_def)
  have "detachObservers registry_Unregister \<lparr> turnId = 1, detachedObserversPtr = Some [8] \<rparr>
          {7, 8, 9} = ({7, 9} :: nat set)"
    by (auto simp: detachObservers_def registry_Unregister_def)
  with r show ?thesis by simp
qed

section \<open>Properties of EventStreamNode and EventSourceNode\<close>

text \<open>
  C9. With \<open>forceUpdate\<close> and \<open>noClear\<close> both false, \<open>SetCurrentTurn\<close> clears the event
  list and records the turn's id exactly when the recorded id differs from the
  turn's id; with the same id it changes nothing, so a second call with the same turn
  leaves the node as the first call left it.
\<close>

theorem SetCurrentTurn_default:
  "(curTurnId n \<noteq> Id turn \<longrightarrow>
      SetCurrentTurn turn False False n = n\<lparr> curTurnId := Id turn, events := [] \<rparr>)
   \<and> (curTurnId n = Id turn \<longrightarrow> SetCurrentTurn turn False False n = n)
   \<and> SetCurrentTurn turn False False (SetCurrentTurn turn False False n)
       = SetCurrentTurn turn False False n"
  by (simp add: SetCurrentTurn_def)

theorem SetCurrentTurn_default_witness:
  "curTurnId (\<lparr> events = [1, 2 :: nat], curTurnId = 5 \<rparr>) \<noteq> Id (TurnBase_new 6 0)
   \<and> SetCurrentTurn (TurnBase_new 6 0) False False \<lparr> events = [1, 2 :: nat], curTurnId = 5 \<rparr>
       = \<lparr> events = [], curTurnId = 6 \<rparr>
   \<and> curTurnId (\<lparr> events = [1, 2 :: nat], curTurnId = 6 \<rparr>) = Id (TurnBase_new 6 0)
   \<and> SetCurrentTurn (TurnBase_new 6 0) False False \<lparr> events = [1, 2 :: nat], curTurnId = 6 \<rparr>
       = \<lparr> events = [1, 2], curTurnId = 6 \<rparr>"
  using SetCurrentTurn_default [of "\<lparr> events = [1, 2 :: nat], curTurnId = 5 \<rparr>" "TurnBase_new 6 0"]
        SetCurrentTurn_default [of "\<lparr> events = [1, 2 :: nat], curTurnId = 6 \<rparr>" "TurnBase_new 6 0"]
  by (simp add: Id_def TurnBase_new_def)

lemma has_staged_input_AddInput: "has_staged_input (AddInput v n)"
  by (simp add: has_staged_input_def AddInput_def Let_def)

lemma has_staged_input_ApplyInput: "\<not> has_staged_input (fst (snd (ApplyInput this turn n)))"
  by (simp add: has_staged_input_def ApplyInput_def)

lemma staged_unpublished_fold:
  "has_staged_input (fold (do_input_call this) cs n) = staged_unpublished (has_staged_input n) cs"
proof (induction cs arbitrary: n)
  case Nil
  show ?case by simp
next
  case (Cons c cs)
  show ?case
    by (cases c) (simp_all add: Cons has_staged_input_AddInput has_staged_input_ApplyInput)
qed

text \<open>
  C6. \<open>ApplyInput\<close> returns true, and reports \<open>OnTurnInputChange\<close> to the engine,
  exactly when the node holds at least one staged value and \<open>changedFlag_\<close> is unset;
  after any run of \<open>AddInput\<close> and \<open>ApplyInput\<close> calls on a new node that is exactly
  when a value has been staged and not published since. After a call that returned
  true, a further \<open>ApplyInput\<close> returns false, reports nothing and leaves the node as
  it is.
\<close>

theorem ApplyInput_publishes:
  "(fst (ApplyInput this turn n) \<longleftrightarrow> events n \<noteq> [] \<and> \<not> changedFlag n)
   \<and> snd (snd (ApplyInput this turn n))
       = (if events n \<noteq> [] \<and> \<not> changedFlag n then [OnTurnInputChange this (Id turn)] else [])
   \<and> fst (ApplyInput this turn (AddInput v n))
   \<and> fst (ApplyInput this turn (fold (do_input_call this) cs EventSourceNode_new))
       = staged_unpublished False cs
   \<and> (fst (ApplyInput this turn n) \<longrightarrow>
        ApplyInput this turn2 (fst (snd (ApplyInput this turn n)))
          = (False, fst (snd (ApplyInput this turn n)), []))"
proof -
  have 1: "(fst (ApplyInput this turn n) \<longleftrightarrow> events n \<noteq> [] \<and> \<not> changedFlag n)
   \<and> snd (snd (ApplyInput this turn n))
       = (if events n \<noteq> [] \<and> \<not> changedFlag n then [OnTurnInputChange this (Id turn)] else [])
   \<and> fst (ApplyInput this turn (AddInput v n))"
    by (simp add: ApplyInput_def AddInput_def Let_def)
  have "fst (ApplyInput this turn m) = has_staged_input m" for m :: "'b EventSourceNode"
    by (simp add: ApplyInput_def has_staged_input_def)
  then have 2: "fst (ApplyInput this turn (fold (do_input_call this) cs EventSourceNode_new))
       = staged_unpublished False cs"
    by (simp add: staged_unpublished_fold) (simp add: has_staged_input_def EventSourceNode_new_def)
  have 3: "fst (ApplyInput this turn n) \<longrightarrow>
        ApplyInput this turn2 (fst (snd (ApplyInput this turn n)))
          = (False, fst (snd (ApplyInput this turn n)), [])"
    by (simp add: ApplyInput_def SetCurrentTurn_def Let_def)
  from 1 2 3 show ?thesis by blast
qed

theorem ApplyInput_publishes_witness:
  "fst (ApplyInput 3 (TurnBase_new 8 0) (AddInput (42::nat) EventSourceNode_new))
   \<and> ApplyInput 3 (TurnBase_new 9 0)
        (fst (snd (ApplyInput 3 (TurnBase_new 8 0) (AddInput (42::nat) EventSourceNode_new))))
       = (False, \<lparr> events = [42], curTurnId = 8, changedFlag = True \<rparr>, [])
   \<and> \<not> fst (ApplyInput 3 (TurnBase_new 8 0)
            (fold (do_input_call 3) [CallAddInput (42::nat), CallApplyInput (TurnBase_new 7 0)]
               EventSourceNode_new))"
proof -
  have h: "events (AddInput (42::nat) EventSourceNode_new) \<noteq> []
           \<and> \<not> changedFlag (AddInput (42::nat) EventSourceNode_new)"
    by (simp add: AddInput_def EventSourceNode_new_def Let_def)
  have n: "fst (snd (ApplyInput 3 (TurnBase_new 8 0) (AddInput (42::nat) EventSourceNode_new)))
             = \<lparr> events = [42], curTurnId = 8, changedFlag = True \<rparr>"
    by (simp add: ApplyInput_def AddInput_def SetCurrentTurn_def EventSourceNode_new_def Let_def
          TurnBase_new_def Id_def)
  note t = ApplyInput_publishes [of 3 "TurnBase_new 8 0" "AddInput (42::nat) EventSourceNode_new" 42
          "[CallAddInput (42::nat), CallApplyInput (TurnBase_new 7 0)]" "TurnBase_new 9 0"]
  from t h have a: "fst (ApplyInput 3 (TurnBase_new 8 0) (AddInput (42::nat) EventSourceNode_new))"
    by blast
  from t a have b: "ApplyInput 3 (TurnBase_new 9 0)
        (fst (snd (ApplyInput 3 (TurnBase_new 8 0) (AddInput (42::nat) EventSourceNode_new))))
       = (False, fst (snd (ApplyInput 3 (TurnBase_new 8 0) (AddInput (42::nat) EventSourceNode_new))), [])"
    by blast
  from t have c: "fst (ApplyInput 3 (TurnBase_new 8 0)
            (fold (do_input_call 3) [CallAddInput (42::nat), CallApplyInput (TurnBase_new 7 0)]
               EventSourceNode_new))
       = staged_unpublished False [CallAddInput (42::nat), CallApplyInput (TurnBase_new 7 0)]"
    by blast
  have d: "\<not> staged_unpublished False [CallAddInput (42::nat), CallApplyInput (TurnBase_new 7 0)]"
    by simp
  from a b c d show ?thesis by (simp only: n) simp
qed

text \<open>
  C7, as amended. \<open>Tick\<close> of an \<open>EventSourceNode\<close> is not a supported operation: on
  every node and in every turn it fails the assertion "Don't tick the
  EventSourceNode" and returns no node. An input node takes part in a turn through
  \<open>ApplyInput\<close>.
\<close>

theorem EventSourceNode_Tick_fails:
  "EventSourceNode_Tick this turn n
     = Inl (AssertionFailed (''Don't tick the EventSourceNode'' @ [CHR 0x0A]))"
  by (simp add: EventSourceNode_Tick_def REACT_ASSERT_def)

text \<open>
  The claim as it stands fails on an input node that has a staged value: its \<open>Tick\<close>
  ends in the failed assertion.
\<close>

theorem EventSourceNode_Tick_counterexample:
  "EventSourceNode_Tick 0 (TurnBase_new 1 0) (AddInput (5::nat) EventSourceNode_new)
     = Inl (AssertionFailed (''Don't tick the EventSourceNode'' @ [CHR 0x0A]))"
  by (simp add: EventSourceNode_Tick_def REACT_ASSERT_def)

section \<open>Properties of EventOpNode\<close>

lemma push_events_Nil: "push_events this [] h = h"
  by (simp add: push_events_def)

lemma push_events_append: "push_events this ys (push_events this xs h) = push_events this (xs @ ys) h"
  by (simp add: push_events_def)

lemma EventCollector_push: "EventCollector this = (\<lambda>e. push_events this [e])"
  by (intro ext) (simp add: EventCollector_def push_events_def)

lemma FilteredEventCollector_push:
  "FilteredEventCollector flt (\<lambda>e. push_events this (g e))
     = (\<lambda>e. push_events this (if flt e then g e else []))"
  by (intro ext) (simp add: FilteredEventCollector_def push_events_Nil)

lemma TransformEventCollector_push:
  "TransformEventCollector func (\<lambda>e. push_events this (g e)) = (\<lambda>e. push_events this (g (func e)))"
  by (intro ext) (simp add: TransformEventCollector_def)

lemma fold_push_events:
  "fold (\<lambda>e. push_events this (g e)) xs h = push_events this (concat (map g xs)) h"
  by (induction xs arbitrary: h) (simp_all add: push_events_Nil push_events_append)

lemma concat_map_filter: "concat (map (\<lambda>e. if flt e then g e else []) xs) = concat (map g (filter flt xs))"
  by (induction xs) simp_all

lemma current_events_SetCurrentTurn:
  "events (SetCurrentTurn turn False False n) = current_events turn n"
  "current_events turn (SetCurrentTurn turn False False n) = current_events turn n"
  by (simp_all add: SetCurrentTurn_def current_events_def)

lemma events_cong:
  "(\<forall>a \<in> set (dep_nodes d). current_events turn (h1 a) = current_events turn (h2 a))
     \<longrightarrow> dep_events d turn h1 = dep_events d turn h2"
  "(\<forall>a \<in> set (op_nodes opr). current_events turn (h1 a) = current_events turn (h2 a))
     \<longrightarrow> op_events opr turn h1 = op_events opr turn h2"
proof (induction d and opr)
  case (EventMergeOp deps)
  show ?case
  proof
    assume a: "\<forall>a \<in> set (op_nodes (EventMergeOp deps)). current_events turn (h1 a) = current_events turn (h2 a)"
    have "map (\<lambda>d. dep_events d turn h1) deps = map (\<lambda>d. dep_events d turn h2) deps"
    proof (rule map_cong [OF refl])
      fix d assume "d \<in> set deps"
      with a EventMergeOp [of d] show "dep_events d turn h1 = dep_events d turn h2" by auto
    qed
    then have "concat (map (\<lambda>d. dep_events d turn h1) deps)
             = concat (map (\<lambda>d. dep_events d turn h2) deps)"
      by (rule arg_cong)
    then show "op_events (EventMergeOp deps) turn h1 = op_events (EventMergeOp deps) turn h2"
      by (simp add: comp_def)
  qed
qed simp_all


lemma fold_collect:
  assumes step: "\<And>d h. d \<in> set ds \<Longrightarrow>
            F d h this = (h this)\<lparr> events := events (h this) @ concat (map g (E d h)) \<rparr>
            \<and> (\<forall>a. a \<noteq> this \<longrightarrow> current_events turn (F d h a) = current_events turn (h a))"
    and cong: "\<And>d h1 h2. d \<in> set ds \<Longrightarrow>
            (\<forall>a. a \<noteq> this \<longrightarrow> current_events turn (h1 a) = current_events turn (h2 a)) \<Longrightarrow>
            E d h1 = E d h2"
  shows "fold F ds h this
           = (h this)\<lparr> events := events (h this) @ concat (map g (concat (map (\<lambda>d. E d h) ds))) \<rparr>
         \<and> (\<forall>a. a \<noteq> this \<longrightarrow> current_events turn (fold F ds h a) = current_events turn (h a))"
  using step cong
proof (induction ds arbitrary: h)
  case Nil
  then show ?case by simp
next
  case (Cons d ds)
  let ?h1 = "F d h"
  have s1: "?h1 this = (h this)\<lparr> events := events (h this) @ concat (map g (E d h)) \<rparr>"
    and c1: "\<forall>a. a \<noteq> this \<longrightarrow> current_events turn (?h1 a) = current_events turn (h a)"
    using Cons.prems(1) [of d h] by simp_all
  have ih: "fold F ds ?h1 this
           = (?h1 this)\<lparr> events := events (?h1 this) @ concat (map g (concat (map (\<lambda>d. E d ?h1) ds))) \<rparr>
         \<and> (\<forall>a. a \<noteq> this \<longrightarrow> current_events turn (fold F ds ?h1 a) = current_events turn (?h1 a))"
    by (rule Cons.IH) (simp_all add: Cons.prems)
  have e: "map (\<lambda>d. E d ?h1) ds = map (\<lambda>d. E d h) ds"
  proof (rule map_cong [OF refl])
    fix d' assume "d' \<in> set ds"
    then show "E d' ?h1 = E d' h" using Cons.prems(2) [of d' ?h1 h] c1 by simp
  qed
  show ?case using ih c1 by (simp add: s1 e)
qed

lemma collect_push:
  "this \<notin> set (dep_nodes d) \<longrightarrow>
     collect_dep d turn (\<lambda>e. push_events this (g e)) (h :: 'e node_store) this
       = (h this)\<lparr> events := events (h this) @ concat (map g (dep_events d turn h)) \<rparr>
     \<and> (\<forall>a. a \<noteq> this \<longrightarrow>
           current_events turn (collect_dep d turn (\<lambda>e. push_events this (g e)) h a)
             = current_events turn (h a))"
  "this \<notin> set (op_nodes opr) \<longrightarrow>
     Collect opr turn (\<lambda>e. push_events this (g e)) h this
       = (h this)\<lparr> events := events (h this) @ concat (map g (op_events opr turn h)) \<rparr>
     \<and> (\<forall>a. a \<noteq> this \<longrightarrow>
           current_events turn (Collect opr turn (\<lambda>e. push_events this (g e)) h a)
             = current_events turn (h a))"
proof (induction d and opr arbitrary: g h and g h)
  case (NodeHolderT x)
  have e: "collect_dep (NodeHolderT x) turn (\<lambda>e. push_events this (g e)) h
          = push_events this (concat (map g (current_events turn (h x))))
              (h(x := SetCurrentTurn turn False False (h x)))"
    by (simp add: collect_node_def fold_push_events Let_def current_events_SetCurrentTurn)
  show ?case
    by (simp only: e) (auto simp: push_events_def current_events_SetCurrentTurn)
next
  case (OpDep x)
  then show ?case by simp
next
  case (EventMergeOp deps)
  show ?case
  proof
    assume n: "this \<notin> set (op_nodes (EventMergeOp deps))"
    let ?C = "\<lambda>e. push_events this (g e)"
    have "fold (\<lambda>d. collect_dep d turn ?C) deps h this
           = (h this)\<lparr> events := events (h this)
                 @ concat (map g (concat (map (\<lambda>d. dep_events d turn h) deps))) \<rparr>
         \<and> (\<forall>a. a \<noteq> this \<longrightarrow>
               current_events turn (fold (\<lambda>d. collect_dep d turn ?C) deps h a)
                 = current_events turn (h a))"
    proof (rule fold_collect)
      fix d h' assume d: "d \<in> set deps"
      with n have "this \<notin> set (dep_nodes d)" by auto
      with EventMergeOp [OF d, of g h']
      show "collect_dep d turn ?C h' this
              = (h' this)\<lparr> events := events (h' this) @ concat (map g (dep_events d turn h')) \<rparr>
            \<and> (\<forall>a. a \<noteq> this \<longrightarrow>
                  current_events turn (collect_dep d turn ?C h' a) = current_events turn (h' a))"
        by simp
    next
      fix d and h1 h2 :: "'e node_store" assume d: "d \<in> set deps"
        and c: "\<forall>a. a \<noteq> this \<longrightarrow> current_events turn (h1 a) = current_events turn (h2 a)"
      from d n have "this \<notin> set (dep_nodes d)" by auto
      with c have "\<forall>a \<in> set (dep_nodes d). current_events turn (h1 a) = current_events turn (h2 a)"
        by auto
      then show "dep_events d turn h1 = dep_events d turn h2"
        using events_cong(1) [of d turn h1 h2] by simp
    qed
    then show "Collect (EventMergeOp deps) turn ?C h this
       = (h this)\<lparr> events := events (h this) @ concat (map g (op_events (EventMergeOp deps) turn h)) \<rparr>
     \<and> (\<forall>a. a \<noteq> this \<longrightarrow>
           current_events turn (Collect (EventMergeOp deps) turn ?C h a) = current_events turn (h a))"
      by (simp add: fold_map comp_def)
  qed
next
  case (EventFilterOp flt dep)
  show ?case
    using EventFilterOp [of "\<lambda>e. if flt e then g e else []" h]
    by (simp add: FilteredEventCollector_push concat_map_filter)
next
  case (EventTransformOp func dep)
  show ?case
    using EventTransformOp [of "\<lambda>e. g (func e)" h]
    by (simp add: TransformEventCollector_push comp_def)
qed

lemma Tick_events:
  assumes "this \<notin> set (op_nodes opr)"
  shows "events (fst (EventOpNode_Tick this opr turn h) this) = op_events opr turn h"
proof -
  let ?h1 = "h(this := SetCurrentTurn turn True False (h this))"
  have "Collect opr turn (\<lambda>e. push_events this [e]) ?h1 this
          = (?h1 this)\<lparr> events := events (?h1 this) @ concat (map (\<lambda>e. [e]) (op_events opr turn ?h1)) \<rparr>"
    using collect_push(2) [of this opr turn "\<lambda>e. [e]" ?h1] assms by simp
  moreover have "op_events opr turn ?h1 = op_events opr turn h"
    using events_cong(2) [of opr turn ?h1 h] assms by auto
  moreover have "events (?h1 this) = []" by (simp add: SetCurrentTurn_def)
  ultimately show ?thesis
    by (simp add: EventOpNode_Tick_def EventCollector_push Let_def)
qed

text \<open>
  C5. One \<open>Tick\<close> of an \<open>EventOpNode\<close> makes exactly one report to the engine, either
  \<open>OnNodePulse\<close> or \<open>OnNodeIdlePulse\<close>: \<open>OnNodePulse\<close> exactly when the node's event list
  after the tick is not empty, \<open>OnNodeIdlePulse\<close> exactly when it is empty. For a node
  that is not among its own dependencies that list is the list of events collected
  from the dependencies in this turn.
\<close>

theorem EventOpNode_Tick_reports:
  "EventOpNode_Tick this opr turn h = (h', es) \<Longrightarrow>
     (es = [OnNodePulse this (Id turn)] \<or> es = [OnNodeIdlePulse this (Id turn)])
     \<and> (es = [OnNodePulse this (Id turn)] \<longleftrightarrow> events (h' this) \<noteq> [])
     \<and> (es = [OnNodeIdlePulse this (Id turn)] \<longleftrightarrow> events (h' this) = [])
     \<and> (this \<notin> set (op_nodes opr) \<longrightarrow> events (h' this) = op_events opr turn h)"
proof -
  assume t: "EventOpNode_Tick this opr turn h = (h', es)"
  then have h': "h' = fst (EventOpNode_Tick this opr turn h)" by simp
  have 1: "(es = [OnNodePulse this (Id turn)] \<or> es = [OnNodeIdlePulse this (Id turn)])
     \<and> (es = [OnNodePulse this (Id turn)] \<longleftrightarrow> events (h' this) \<noteq> [])
     \<and> (es = [OnNodeIdlePulse this (Id turn)] \<longleftrightarrow> events (h' this) = [])"
    using t by (auto simp: EventOpNode_Tick_def Let_def split: if_splits)
  have 2: "this \<notin> set (op_nodes opr) \<longrightarrow> events (h' this) = op_events opr turn h"
    by (simp add: h' Tick_events)
  from 1 2 show ?thesis by blast
qed

theorem EventOpNode_Tick_reports_witness:
  "snd (EventOpNode_Tick 0 op_example (TurnBase_new 7 0) store_example) = [OnNodePulse 0 7]
   \<and> events (fst (EventOpNode_Tick 0 op_example (TurnBase_new 7 0) store_example) 0) = [1, 2, 4]
   \<and> snd (EventOpNode_Tick 0 op_example (TurnBase_new 8 0) store_example) = [OnNodeIdlePulse 0 8]
   \<and> events (fst (EventOpNode_Tick 0 op_example (TurnBase_new 8 0) store_example) 0) = []"
proof -
  have n: "0 \<notin> set (op_nodes op_example)" by (simp add: op_example_def)
  have a: "op_events op_example (TurnBase_new 7 0) store_example = [1, 2, 4]"
    by (simp add: op_example_def store_example_def current_events_def Id_def TurnBase_new_def)
  have b: "op_events op_example (TurnBase_new 8 0) store_example = []"
    by (simp add: op_example_def store_example_def current_events_def Id_def TurnBase_new_def)
  have i: "Id (TurnBase_new 7 0) = 7" "Id (TurnBase_new 8 0) = 8"
    by (simp_all add: Id_def TurnBase_new_def)
  from EventOpNode_Tick_reports [of 0 op_example "TurnBase_new 7 0" store_example
         "fst (EventOpNode_Tick 0 op_example (TurnBase_new 7 0) store_example)"
         "snd (EventOpNode_Tick 0 op_example (TurnBase_new 7 0) store_example)"]
       EventOpNode_Tick_reports [of 0 op_example "TurnBase_new 8 0" store_example
         "fst (EventOpNode_Tick 0 op_example (TurnBase_new 8 0) store_example)"
         "snd (EventOpNode_Tick 0 op_example (TurnBase_new 8 0) store_example)"]
       n a b
  show ?thesis by (simp add: i)
qed



section \<open>Properties of ExclusiveTurnManager\<close>

lemma unblock_merged_turns:
  "turns (fst (unblock_merged es (s, w))) = turns s \<and> tail (fst (unblock_merged es (s, w))) = tail s"
  by (induction es arbitrary: s w) simp_all

lemma unblock_merged_woken:
  "snd (unblock_merged es (s, w)) = w @ map (CallerWoken \<circ> snd) es"
  by (induction es arbitrary: s w) simp_all

lemma unblock_merged_conds:
  "conds (fst (unblock_merged es (s, w))) a
     = (if a \<in> snd ` set es then Unblock (conds s a) else conds s a)"
  by (induction es arbitrary: s w) (auto simp: Unblock_def)

lemma UnblockSuccessors_woken:
  "snd (UnblockSuccessors t s)
     = map (CallerWoken \<circ> snd) (merged (turns s t))
       @ (case successor (turns s t) of None \<Rightarrow> [] | Some n \<Rightarrow> [TurnWoken n])"
proof -
  obtain s1 w where u: "unblock_merged (merged (turns s t)) (s, []) = (s1, w)"
    by (cases "unblock_merged (merged (turns s t)) (s, [])")
  from u have "w = map (CallerWoken \<circ> snd) (merged (turns s t))"
    using unblock_merged_woken [of "merged (turns s t)" s "[]"] by simp
  moreover from u have "turns s1 = turns s"
    using unblock_merged_turns [of "merged (turns s t)" s "[]"] by simp
  ultimately show ?thesis
    using u by (simp add: UnblockSuccessors_def split: option.splits)
qed

lemma UnblockSuccessors_conds:
  "conds (fst (UnblockSuccessors t s)) a
     = (if a \<in> snd ` set (merged (turns s t)) then Unblock (conds s a) else conds s a)"
proof -
  obtain s1 w where u: "unblock_merged (merged (turns s t)) (s, []) = (s1, w)"
    by (cases "unblock_merged (merged (turns s t)) (s, [])")
  from u have "conds s1 a = (if a \<in> snd ` set (merged (turns s t)) then Unblock (conds s a) else conds s a)"
    using unblock_merged_conds [of "merged (turns s t)" s "[]" a] by simp
  then show ?thesis
    using u by (simp add: UnblockSuccessors_def split: option.splits)
qed

lemma UnblockSuccessors_turns:
  "turns (fst (UnblockSuccessors t s))
     = (case successor (turns s t) of
          None \<Rightarrow> turns s
        | Some n \<Rightarrow> (turns s)(n := (turns s n)\<lparr> blockCondition := Unblock (blockCondition (turns s n)) \<rparr>))"
  and UnblockSuccessors_tail: "tail (fst (UnblockSuccessors t s)) = tail s"
proof -
  obtain s1 w where u: "unblock_merged (merged (turns s t)) (s, []) = (s1, w)"
    by (cases "unblock_merged (merged (turns s t)) (s, [])")
  from u have t: "turns s1 = turns s" "tail s1 = tail s"
    using unblock_merged_turns [of "merged (turns s t)" s "[]"] by simp_all
  show "turns (fst (UnblockSuccessors t s))
     = (case successor (turns s t) of
          None \<Rightarrow> turns s
        | Some n \<Rightarrow> (turns s)(n := (turns s n)\<lparr> blockCondition := Unblock (blockCondition (turns s n)) \<rparr>))"
    using u t by (simp add: UnblockSuccessors_def split: option.splits)
  show "tail (fst (UnblockSuccessors t s)) = tail s"
    using u t by (simp add: UnblockSuccessors_def split: option.splits)
qed

lemma EndTurn_fst:
  "turns (fst (EndTurn t s)) = turns (fst (UnblockSuccessors t s))"
  "conds (fst (EndTurn t s)) = conds (fst (UnblockSuccessors t s))"
  "tail (fst (EndTurn t s)) = (if tail s = Some t then None else tail s)"
  "snd (EndTurn t s) = snd (UnblockSuccessors t s)"
  using UnblockSuccessors_tail [of t s]
  by (auto simp: EndTurn_def split: prod.splits)

lemma isMergeable_StartTurn: "isMergeable (turns (StartTurn t s) a) = isMergeable (turns s a)"
  by (simp add: StartTurn_def Append_def Let_def split: option.splits)

lemma isMergeable_EndTurn: "isMergeable (turns (fst (EndTurn t s)) a) = isMergeable (turns s a)"
  by (simp add: EndTurn_fst UnblockSuccessors_turns split: option.splits)

lemma TryMerge_cases:
  "TryMerge f c s =
     (if (\<exists>t. tail s = Some t \<and> isMergeable (turns s t) \<and> blocked (blockCondition (turns s t)))
      then (True, s\<lparr> conds := (conds s)(c := \<lparr> blocked = True \<rparr>),
                      turns := (turns s)(the (tail s) := (turns s (the (tail s)))
                                 \<lparr> merged := merged (turns s (the (tail s))) @ [(f, c)] \<rparr>) \<rparr>)
      else (False, s\<lparr> conds := (conds s)(c := \<lparr> blocked = False \<rparr>) \<rparr>))"
  by (auto simp: TryMerge_def ExclusiveTurn_TryMerge_def RunIfBlocked_def Let_def Block_def
        BlockingCondition_new_def split: option.splits)



lemma merge_all_two_inputs:
  "merge_all two_inputs two_turns
     = ([True, True],
        two_turns\<lparr> conds := (conds two_turns)(10 := \<lparr> blocked = True \<rparr>, 11 := \<lparr> blocked = True \<rparr>),
                    turns := (turns two_turns)(2 := (turns two_turns 2)\<lparr> merged := two_inputs \<rparr>) \<rparr>)"
  by (simp add: TryMerge_cases manager_init_def two_turns_def two_inputs_def StartTurn_def
        Append_def ExclusiveTurn_new_def BlockingCondition_new_def Block_def Let_def)

lemmas example_defs = manager_init_def two_turns_def two_inputs_def StartTurn_def Append_def
  ExclusiveTurn_new_def BlockingCondition_new_def Block_def Unblock_def Let_def





text \<open>
  C3. \<open>EndTurn\<close> on a turn wakes every caller of the turn's merge list, in list
  order, and only then the successor turn if there is one; afterwards none of these
  callers and not the successor is blocked. The tail pointer is cleared when the
  turn was the tail and is left as it was when another turn is the tail.
\<close>

theorem EndTurn_wakes:
  "EndTurn t s = (s', w) \<Longrightarrow>
     w = map (CallerWoken \<circ> snd) (merged (turns s t))
         @ (case successor (turns s t) of None \<Rightarrow> [] | Some n \<Rightarrow> [TurnWoken n])
     \<and> (\<forall>c \<in> snd ` set (merged (turns s t)). \<not> blocked (conds s' c))
     \<and> (\<forall>n. successor (turns s t) = Some n \<longrightarrow> \<not> blocked (blockCondition (turns s' n)))
     \<and> (tail s = Some t \<longrightarrow> tail s' = None)
     \<and> (tail s \<noteq> Some t \<longrightarrow> tail s' = tail s)"
proof -
  assume e: "EndTurn t s = (s', w)"
  then have s': "s' = fst (EndTurn t s)" and w: "w = snd (EndTurn t s)" by simp_all
  have 1: "w = map (CallerWoken \<circ> snd) (merged (turns s t))
         @ (case successor (turns s t) of None \<Rightarrow> [] | Some n \<Rightarrow> [TurnWoken n])"
    by (simp add: w EndTurn_fst UnblockSuccessors_woken)
  have 2: "\<forall>c \<in> snd ` set (merged (turns s t)). \<not> blocked (conds s' c)"
    by (simp add: s' EndTurn_fst UnblockSuccessors_conds Unblock_def)
  have 3: "\<forall>n. successor (turns s t) = Some n \<longrightarrow> \<not> blocked (blockCondition (turns s' n))"
    by (simp add: s' EndTurn_fst UnblockSuccessors_turns Unblock_def)
  have 4: "(tail s = Some t \<longrightarrow> tail s' = None) \<and> (tail s \<noteq> Some t \<longrightarrow> tail s' = tail s)"
    by (simp add: s' EndTurn_fst)
  from 1 2 3 4 show ?thesis by blast
qed

theorem EndTurn_wakes_witness:
  "snd (EndTurn 2 three_turns) = [CallerWoken 10, CallerWoken 11, TurnWoken 3]
   \<and> \<not> blocked (conds (fst (EndTurn 2 three_turns)) 10)
   \<and> \<not> blocked (conds (fst (EndTurn 2 three_turns)) 11)
   \<and> \<not> blocked (blockCondition (turns (fst (EndTurn 2 three_turns)) 3))
   \<and> tail (fst (EndTurn 2 three_turns)) = Some 3
   \<and> tail (fst (EndTurn 3 three_turns)) = None"
proof -
  note m = merge_all_two_inputs
  have a: "merged (turns three_turns 2) = two_inputs" "successor (turns three_turns 2) = Some 3"
    "tail three_turns = Some 3"
    by (simp_all add: three_turns_def m) (simp_all add: example_defs)
  from EndTurn_wakes [of 2 three_turns "fst (EndTurn 2 three_turns)" "snd (EndTurn 2 three_turns)"]
       EndTurn_wakes [of 3 three_turns "fst (EndTurn 3 three_turns)" "snd (EndTurn 3 three_turns)"]
       a
  show ?thesis by (simp add: two_inputs_def)
qed



end
